theory Spec2Isabelle
  imports Main "HOL-Library.Word"
begin

section \<open>Go values as the reflect package sees them\<close>

text \<open>
  \<open>orm/session/record.go\<close> works on \<open>interface{}\<close> arguments through the
  \<open>reflect\<close> package. A dynamic Go value is a type together with its data. Only the
  kinds that decide a branch of \<open>Insert\<close> or \<open>Find\<close> are kept: the kinds with an element
  type (pointer, slice, array, map), structs, and three scalar kinds standing for the rest.
  A struct type lists its fields in declaration order.
\<close>

datatype gotype =
    TInt
  | TString
  | TBool
  | TPtr gotype
  | TSlice gotype
  | TArray nat gotype
  | TMap gotype gotype
  | TStruct string "(string \<times> gotype) list"

text \<open>
  Data: \<open>VNil\<close> is the nil pointer, nil slice or nil map; \<open>VRef d\<close> a non-nil pointer to a
  variable holding \<open>d\<close>; \<open>VList ds\<close> a non-nil slice (or an array) with elements \<open>ds\<close>;
  \<open>VStruct fs\<close> a struct, one entry per field in declaration order. Pointers own their
  pointee here; the one place where \<open>Find\<close> aliases memory (the scan targets point into
  the element being filled) is modelled by field references, see \<open>target\<close>.
\<close>

datatype goval =
    VNil
  | VInt int
  | VStr string
  | VBool bool
  | VRef goval
  | VList "goval list"
  | VStruct "(string \<times> goval) list"

text \<open>An \<open>interface{}\<close>: \<open>None\<close> is the nil interface.\<close>

type_synonym iface = "(gotype \<times> goval) option"

text \<open>The zero value of a type, as \<open>reflect.New\<close> allocates it.\<close>

fun zero :: "gotype \<Rightarrow> goval" where
  "zero TInt = VInt 0"
| "zero TString = VStr []"
| "zero TBool = VBool False"
| "zero (TPtr t) = VNil"
| "zero (TSlice t) = VNil"
| "zero (TArray n t) = VList (replicate n (zero t))"
| "zero (TMap k t) = VNil"
| "zero (TStruct nm fs) = VStruct (map (\<lambda>(n, t). (n, zero t)) fs)"

text \<open>
  A Go identifier is exported when it starts with an upper-case letter (here: an ASCII
  one; field names with a non-ASCII first letter are outside the model).
\<close>

definition exported :: "string \<Rightarrow> bool" where
  "exported n =
     (case n of [] \<Rightarrow> False
      | c # _ \<Rightarrow> (65::nat) \<le> of_char c \<and> of_char c \<le> (90::nat))"

text \<open>Elements of a slice; a nil slice has none.\<close>

fun elems :: "goval \<Rightarrow> goval list" where
  "elems (VList ds) = ds"
| "elems _ = []"

text \<open>
  The data of field \<open>n\<close> of a struct. A value of a struct type has every field of the
  type, so the \<open>VNil\<close> default is never reached on a well-typed value.
\<close>

fun field_data :: "goval \<Rightarrow> string \<Rightarrow> goval" where
  "field_data (VStruct fs) n = (case map_of fs n of Some d \<Rightarrow> d | None \<Rightarrow> VNil)"
| "field_data _ n = VNil"

text \<open>Storing into field \<open>n\<close> keeps the field's position.\<close>

fun store_field :: "string \<Rightarrow> goval \<Rightarrow> (string \<times> goval) list \<Rightarrow> (string \<times> goval) list" where
  "store_field n d [] = []"
| "store_field n d ((m, e) # fs) =
     (if m = n then (m, d) # fs else (m, e) # store_field n d fs)"

fun set_field :: "goval \<Rightarrow> string \<Rightarrow> goval \<Rightarrow> goval" where
  "set_field (VStruct fs) n d = VStruct (store_field n d fs)"
| "set_field v n d = v"

subsection \<open>reflect.Value\<close>

text \<open>
  A \<open>reflect.Value\<close> is the zero Value (\<open>Invalid\<close>) or a typed datum with the bits of its
  flag word that the calls below test: addressable (\<open>flagAddr\<close>) and read-only
  (\<open>flagRO\<close>, set on a value reached through an unexported field).
\<close>

datatype Value =
    Invalid
  | Value (vtyp: gotype) (vdata: goval) (can_addr: bool) (read_only: bool)

text \<open>The panics the reflect calls of \<open>Find\<close> can raise.\<close>

datatype panic =
    TypeOfZeroValue
  | ElemOfInvalidType gotype
  | ElemOfNonPointer
  | InterfaceOfZeroValue
  | InterfaceOfUnexported
  | FieldByNameOfNonStruct
  | AddrOfUnaddressable
  | AppendToNonSlice
  | NotAssignable
  | SetOfUnaddressable
  | SetOfUnexported

definition ValueOf :: "iface \<Rightarrow> Value" where
  "ValueOf i = (case i of None \<Rightarrow> Invalid | Some (t, d) \<Rightarrow> Value t d False False)"

text \<open>\<open>Value.Elem\<close> on a pointer: the zero Value for a nil pointer, else the
  addressable pointee. It panics on a kind other than pointer (or interface).\<close>

fun Value_Elem :: "Value \<Rightarrow> panic + Value" where
  "Value_Elem (Value (TPtr t) (VRef d) a r) = Inr (Value t d True r)"
| "Value_Elem (Value (TPtr t) _ a r) = Inr Invalid"
| "Value_Elem _ = Inl ElemOfNonPointer"

text \<open>\<open>reflect.Indirect\<close>: \<open>if v.Kind() != Pointer { return v }; return v.Elem()\<close>.\<close>

fun Indirect :: "Value \<Rightarrow> Value" where
  "Indirect (Value (TPtr t) (VRef d) a r) = Value t d True r"
| "Indirect (Value (TPtr t) _ a r) = Invalid"
| "Indirect v = v"

fun Value_Type :: "Value \<Rightarrow> panic + gotype" where
  "Value_Type Invalid = Inl TypeOfZeroValue"
| "Value_Type (Value t d a r) = Inr t"

text \<open>\<open>Type.Elem\<close> panics unless the kind is Array, Chan, Map, Pointer or Slice.\<close>

fun Type_Elem :: "gotype \<Rightarrow> panic + gotype" where
  "Type_Elem (TPtr t) = Inr t"
| "Type_Elem (TSlice t) = Inr t"
| "Type_Elem (TArray n t) = Inr t"
| "Type_Elem (TMap k t) = Inr t"
| "Type_Elem t = Inl (ElemOfInvalidType t)"

definition New :: "gotype \<Rightarrow> Value" where
  "New t = Value (TPtr t) (VRef (zero t)) False False"

fun Value_Interface :: "Value \<Rightarrow> panic + iface" where
  "Value_Interface Invalid = Inl InterfaceOfZeroValue"
| "Value_Interface (Value t d a r) =
     (if r then Inl InterfaceOfUnexported else Inr (Some (t, d)))"

text \<open>\<open>Value.FieldByName\<close> panics unless the kind is Struct and returns the zero Value
  when the struct has no field of that name. A field of an addressable struct is
  addressable; an unexported field is read-only.\<close>

fun Value_FieldByName :: "Value \<Rightarrow> string \<Rightarrow> panic + Value" where
  "Value_FieldByName (Value (TStruct nm fs) d a r) n =
     (case map_of fs n of
        None \<Rightarrow> Inr Invalid
      | Some ft \<Rightarrow> Inr (Value ft (field_data d n) a (r \<or> \<not> exported n)))"
| "Value_FieldByName _ n = Inl FieldByNameOfNonStruct"

text \<open>\<open>Value.Addr\<close> panics unless the value is addressable (the zero Value is not).
  The pointer it returns is used by \<open>Find\<close> only as a scan target, so the model keeps the
  pointee's \<open>Value\<close> and \<open>field_target\<close> below records which field it is.\<close>

fun Value_Addr :: "Value \<Rightarrow> panic + Value" where
  "Value_Addr Invalid = Inl AddrOfUnaddressable"
| "Value_Addr (Value t d a r) =
     (if a then Inr (Value (TPtr t) (VRef d) False r) else Inl AddrOfUnaddressable)"

text \<open>\<open>reflect.Append(s, x)\<close> panics unless \<open>s\<close> is of kind Slice and \<open>x\<close> is assignable to
  its element type; the result is a new, non-nil, unaddressable slice Value.\<close>

fun Append :: "Value \<Rightarrow> Value \<Rightarrow> panic + Value" where
  "Append (Value (TSlice t) d a r) (Value u e b q) =
     (if u = t then Inr (Value (TSlice t) (VList (elems d @ [e])) False False)
      else Inl NotAssignable)"
| "Append (Value (TSlice t) d a r) Invalid = Inl NotAssignable"
| "Append _ _ = Inl AppendToNonSlice"

text \<open>\<open>v.Set(x)\<close> panics unless \<open>v\<close> is addressable and not read-only and \<open>x\<close> is
  assignable to its type; it stores the data of \<open>x\<close> in the variable \<open>v\<close> stands for.\<close>

fun Value_Set :: "Value \<Rightarrow> Value \<Rightarrow> panic + Value" where
  "Value_Set Invalid x = Inl SetOfUnaddressable"
| "Value_Set (Value t d a r) x =
     (if r then Inl SetOfUnexported
      else if \<not> a then Inl SetOfUnaddressable
      else (case x of Invalid \<Rightarrow> Inl NotAssignable
            | Value u e b q \<Rightarrow>
                if u = t then Inr (Value t e a r) else Inl NotAssignable))"


subsection \<open>Scan targets\<close>

text \<open>
  \<open>dest.FieldByName(name).Addr().Interface()\<close> is a pointer into \<open>dest\<close>: what \<open>Scan\<close>
  writes through it lands in that field. The pointer is therefore modelled as a
  reference to the named field, after the three calls have passed their checks.
\<close>

datatype target = FieldPtr string

definition field_target :: "Value \<Rightarrow> string \<Rightarrow> panic + target" where
  "field_target dest name =
     (case Value_FieldByName dest name of
        Inl p \<Rightarrow> Inl p
      | Inr f \<Rightarrow>
          (case Value_Addr f of
             Inl p \<Rightarrow> Inl p
           | Inr ptr \<Rightarrow>
               (case Value_Interface ptr of
                  Inl p \<Rightarrow> Inl p
                | Inr i \<Rightarrow> Inr (FieldPtr name))))"

text \<open>The inner loop of \<open>Find\<close>:
  \<open>for _, name := range table.FieldNames { valueList = append(valueList, ...) }\<close>.\<close>

fun field_targets :: "Value \<Rightarrow> string list \<Rightarrow> panic + target list" where
  "field_targets dest [] = Inr []"
| "field_targets dest (name # names) =
     (case field_target dest name of
        Inl p \<Rightarrow> Inl p
      | Inr tg \<Rightarrow>
          (case field_targets dest names of
             Inl p \<Rightarrow> Inl p
           | Inr tgs \<Rightarrow> Inr (tg # tgs)))"

section \<open>Errors and outcomes\<close>

text \<open>The error kinds of the specification's section 7 that reach \<open>Insert\<close> and \<open>Find\<close>.\<close>

datatype error =
    InvalidModel
  | ExecutorError string
  | ScanError string

text \<open>
  How a call ends: it returns, it panics, or schema derivation fails. The call sites
  \<open>s.Model(value).Table\<close> have no error branch, so a failed derivation is kept apart
  from both: it is never a normal return.
\<close>

datatype 'a outcome =
    Returned 'a
  | Panicked panic
  | ModelFailed error

section \<open>Table Schema Registry\<close>

record FieldDescriptor =
  FName :: string
  ColumnName :: string

record TableSchema =
  Name :: string
  Fields :: "FieldDescriptor list"
  FieldNames :: "string list"

text \<open>The process-wide cache, keyed by type identity.\<close>

type_synonym registry = "(gotype \<times> TableSchema) list"

text \<open>
  Modelled from the spec: the schema package (\<open>Parse\<close>, \<open>RecordValues\<close>) and
  \<open>Session.Model\<close> are not among the sources. Section 3: one descriptor per exported,
  mappable field, in declaration order; the table name is the type name; the column
  name defaults to the field name (overrides by tag are outside this core).
  Section 4.1: the input is a struct or a pointer to one with at least one mappable
  field, otherwise derivation fails with an InvalidModel error; the first call for a type
  derives the schema and caches it; later calls return the cached schema without
  deriving again.
\<close>

definition mappable :: "string \<times> gotype \<Rightarrow> bool" where
  "mappable f = exported (fst f)"

fun model_type :: "iface \<Rightarrow> gotype option" where
  "model_type (Some (TStruct nm fs, d)) = Some (TStruct nm fs)"
| "model_type (Some (TPtr (TStruct nm fs), d)) = Some (TStruct nm fs)"
| "model_type _ = None"

fun Parse :: "gotype \<Rightarrow> error + TableSchema" where
  "Parse (TStruct nm fs) =
     (let ms = filter mappable fs in
      if ms = [] then Inl InvalidModel
      else Inr \<lparr>Name = nm,
                Fields = map (\<lambda>f. \<lparr>FName = fst f, ColumnName = fst f\<rparr>) ms,
                FieldNames = map fst ms\<rparr>)"
| "Parse _ = Inl InvalidModel"

definition Model :: "registry \<Rightarrow> iface \<Rightarrow> error + (registry \<times> TableSchema)" where
  "Model reg v =
     (case model_type v of
        None \<Rightarrow> Inl InvalidModel
      | Some t \<Rightarrow>
          (case map_of reg t of
             Some table \<Rightarrow> Inr (reg, table)
           | None \<Rightarrow>
               (case Parse t of
                  Inl e \<Rightarrow> Inl e
                | Inr table \<Rightarrow> Inr ((t, table) # reg, table))))"

text \<open>
  Modelled from the spec: \<open>table.RecordValues(value)\<close> is that value's column-ordered
  values (section 4.3), read through a pointer when the value is one.
\<close>

definition RecordValues :: "TableSchema \<Rightarrow> iface \<Rightarrow> goval list" where
  "RecordValues table v =
     (case Indirect (ValueOf v) of
        Invalid \<Rightarrow> []
      | Value t d a r \<Rightarrow> map (field_data d) (FieldNames table))"

section \<open>Clause Set and Statement Builder\<close>

datatype ClauseKind = INSERT | VALUES | SELECT | WHERE | ORDERBY | LIMIT | UPDATE | DELETE

text \<open>A statement fragment with its parameters; the arguments of \<open>Set\<close> and the
  parameters are untyped Go values.\<close>

type_synonym fragment = "string \<times> goval list"
type_synonym clause_set = "ClauseKind \<Rightarrow> fragment option"
type_synonym generators = "ClauseKind \<Rightarrow> goval list \<Rightarrow> fragment"

text \<open>
  Modelled from the spec: the clause package is not among the sources. Section 4.2:
  \<open>Set(kind, args...)\<close> stores, overwriting any prior fragment of the same kind, a
  rendered fragment and its parameters. How a kind renders its arguments (placeholders,
  quoting) is driver-specific, so the rendering functions are a parameter \<open>gen\<close>.
\<close>

definition Set :: "generators \<Rightarrow> clause_set \<Rightarrow> ClauseKind \<Rightarrow> goval list \<Rightarrow> clause_set" where
  "Set gen cs kind args = cs(kind \<mapsto> gen kind args)"

text \<open>
  Modelled from the spec: \<open>Build(kinds...)\<close> walks the \<open>kinds\<close> argument list in order,
  appends the stored fragment of each kind to the SQL text and its parameters to the
  parameter list, and skips a kind that was never \<open>Set\<close>.
\<close>

fun Build_loop :: "clause_set \<Rightarrow> ClauseKind list \<Rightarrow> string \<Rightarrow> goval list \<Rightarrow> fragment" where
  "Build_loop cs [] sql vars = (sql, vars)"
| "Build_loop cs (k # ks) sql vars =
     (case cs k of
        None \<Rightarrow> Build_loop cs ks sql vars
      | Some (frag, ps) \<Rightarrow> Build_loop cs ks (sql @ frag) (vars @ ps))"

definition Build :: "clause_set \<Rightarrow> ClauseKind list \<Rightarrow> fragment" where
  "Build cs kinds = Build_loop cs kinds [] []"

section \<open>The external executor\<close>

text \<open>
  \<open>Session.Raw\<close>, \<open>Exec\<close> and \<open>QueryRows\<close> hand a statement to the database driver; they
  are outside these sources and enter as a parameter. \<open>Exec\<close> answers with an error or a
  result, which is what \<open>Result.RowsAffected()\<close> will return: an \<open>int64\<close> and an error.
  \<open>QueryRows\<close> answers with an error or a row cursor.
\<close>

type_synonym Result = "64 word \<times> error option"

text \<open>
  A row of the cursor: the column values the driver holds for it, and whether scanning
  it fails. Which conversions a driver accepts is the driver's business, so a row says
  itself when \<open>Scan\<close> rejects it (a type mismatch, a broken connection).
\<close>

record Row =
  cols :: "goval list"
  scan_fail :: "error option"

text \<open>
  The cursor: a finite, forward-only sequence of rows (section 3 of the specification)
  and the answer its \<open>Close\<close> will give. \<open>rows.Next()\<close> is true as long as a row is
  pending and moves to it.
\<close>

record Rows =
  pending :: "Row list"
  close_result :: "error option"

record Executor =
  Exec :: "string \<Rightarrow> goval list \<Rightarrow> error + Result"
  QueryRows :: "string \<Rightarrow> goval list \<Rightarrow> error + Rows"

text \<open>The calls a session makes on the executor and on the cursor's \<open>Close\<close>, in order.\<close>

datatype event =
    ExecCall string "goval list"
  | QueryCall string "goval list"
  | CloseCall

text \<open>
  \<open>rows.Scan(valueList...)\<close>, by the contract of section 6 and the ScanError of section 7:
  it fails when the row is rejected or the number of targets differs from the number
  of columns; otherwise it stores the columns through the targets, positionally, the
  first target first. The targets point into \<open>dest\<close>, which is returned updated.
\<close>

fun assign :: "target list \<Rightarrow> goval list \<Rightarrow> goval \<Rightarrow> goval" where
  "assign (FieldPtr n # tgs) (c # cs) dest = assign tgs cs (set_field dest n c)"
| "assign _ _ dest = dest"

definition Scan :: "Row \<Rightarrow> target list \<Rightarrow> goval \<Rightarrow> error + goval" where
  "Scan row valueList dest =
     (case scan_fail row of
        Some e \<Rightarrow> Inl e
      | None \<Rightarrow>
          if length (cols row) \<noteq> length valueList
          then Inl (ScanError ''wrong number of destination arguments'')
          else Inr (assign valueList (cols row) dest))"

section \<open>Record Session\<close>

text \<open>The session state \<open>Insert\<close> and \<open>Find\<close> read and write: its clause set and the
  schema cache behind \<open>Model\<close>.\<close>

record Session =
  clause :: clause_set
  registry :: registry

subsection \<open>Insert\<close>

text \<open>
  The loop of \<open>Insert\<close> (lines 13 to 17): for each value, resolve its table, re-set the
  INSERT clause from it and append the value's record, as one element, to
  \<open>recordValues\<close>. A failed schema derivation stops the loop.
\<close>

fun Insert_loop ::
  "generators \<Rightarrow> Session \<Rightarrow> iface list \<Rightarrow> goval list \<Rightarrow> error + (Session \<times> goval list)" where
  "Insert_loop gen s [] recordValues = Inr (s, recordValues)"
| "Insert_loop gen s (value # values) recordValues =
     (case Model (registry s) value of
        Inl e \<Rightarrow> Inl e
      | Inr (reg, table) \<Rightarrow>
          Insert_loop gen
            \<lparr>clause = Set gen (clause s) INSERT
                        [VStr (Name table), VList (map VStr (FieldNames table))],
             registry = reg\<rparr>
            values
            (recordValues @ [VList (RecordValues table value)]))"

text \<open>
  What a call leaves behind for its caller to see: how it ended and the calls it made.
  The session after the call is not part of it, because \<open>Raw\<close>, \<open>Exec\<close> and \<open>QueryRows\<close>
  act on the session outside these sources.
\<close>

record Insert_run =
  insert_outcome :: "(64 word \<times> error option) outcome"
  insert_calls :: "event list"

definition Insert :: "generators \<Rightarrow> Executor \<Rightarrow> Session \<Rightarrow> iface list \<Rightarrow> Insert_run" where
  "Insert gen ex s values =
     (case Insert_loop gen s values [] of
        Inl e \<Rightarrow> \<lparr>insert_outcome = ModelFailed e, insert_calls = []\<rparr>
      | Inr (s1, recordValues) \<Rightarrow>
          (let cs = Set gen (clause s1) VALUES recordValues;
               (sql, vars) = Build cs [INSERT, VALUES]
           in case Exec ex sql vars of
                Inl err \<Rightarrow>
                  \<lparr>insert_outcome = Returned (0, Some err),
                   insert_calls = [ExecCall sql vars]\<rparr>
              | Inr result \<Rightarrow>
                  \<lparr>insert_outcome = Returned result,
                   insert_calls = [ExecCall sql vars]\<rparr>))"

subsection \<open>Find\<close>

text \<open>How the row loop of \<open>Find\<close> (lines 47 to 57) is left.\<close>

datatype loop_exit =
    Exhausted
  | ScanFailed error
  | LoopPanicked panic

text \<open>
  One pass per pending row: allocate a zero \<open>dest\<close>, collect the pointers to its fields
  in the order of \<open>table.FieldNames\<close>, scan the row through them, and on success store
  \<open>reflect.Append(destSlice, dest)\<close> back into \<open>destSlice\<close>. The function returns how the
  loop was left and \<open>destSlice\<close> as it stands then.
\<close>

fun Find_rows :: "gotype \<Rightarrow> string list \<Rightarrow> Value \<Rightarrow> Row list \<Rightarrow> loop_exit \<times> Value" where
  "Find_rows destType names destSlice [] = (Exhausted, destSlice)"
| "Find_rows destType names destSlice (row # rest) =
     (case Value_Elem (New destType) of
        Inl p \<Rightarrow> (LoopPanicked p, destSlice)
      | Inr dest \<Rightarrow>
          (case field_targets dest names of
             Inl p \<Rightarrow> (LoopPanicked p, destSlice)
           | Inr valueList \<Rightarrow>
               (case Scan row valueList (vdata dest) of
                  Inl sErr \<Rightarrow> (ScanFailed sErr, destSlice)
                | Inr filled \<Rightarrow>
                    (case Append destSlice
                            (Value (vtyp dest) filled (can_addr dest) (read_only dest)) of
                       Inl p \<Rightarrow> (LoopPanicked p, destSlice)
                     | Inr appended \<Rightarrow>
                         (case Value_Set destSlice appended of
                            Inl p \<Rightarrow> (LoopPanicked p, destSlice)
                          | Inr destSlice' \<Rightarrow>
                              Find_rows destType names destSlice' rest)))))"

text \<open>The caller's argument after the call: \<open>destSlice\<close> is the variable behind the
  pointer, so what was stored in it is what the pointer now leads to. An argument that
  is not a non-nil pointer has no variable behind it and is as before.\<close>

fun write_back :: "iface \<Rightarrow> Value \<Rightarrow> iface" where
  "write_back (Some (TPtr t, VRef d)) (Value u e a r) = Some (TPtr t, VRef e)"
| "write_back values destSlice = values"

record Find_run =
  find_outcome :: "error option outcome"
  find_dest :: iface
  find_calls :: "event list"

definition Find :: "generators \<Rightarrow> Executor \<Rightarrow> Session \<Rightarrow> iface \<Rightarrow> Find_run" where
  "Find gen ex s values =
     (let destSlice = Indirect (ValueOf values) in
      case Value_Type destSlice of
        Inl p \<Rightarrow> \<lparr>find_outcome = Panicked p, find_dest = values, find_calls = []\<rparr>
      | Inr sliceType \<Rightarrow>
      (case Type_Elem sliceType of
        Inl p \<Rightarrow> \<lparr>find_outcome = Panicked p, find_dest = values, find_calls = []\<rparr>
      | Inr destType \<Rightarrow>
      (case Value_Elem (New destType) of
        Inl p \<Rightarrow> \<lparr>find_outcome = Panicked p, find_dest = values, find_calls = []\<rparr>
      | Inr z \<Rightarrow>
      (case Value_Interface z of
        Inl p \<Rightarrow> \<lparr>find_outcome = Panicked p, find_dest = values, find_calls = []\<rparr>
      | Inr zi \<Rightarrow>
      (case Model (registry s) zi of
        Inl e \<Rightarrow> \<lparr>find_outcome = ModelFailed e, find_dest = values, find_calls = []\<rparr>
      | Inr (reg, table) \<Rightarrow>
          (let cs = Set gen (clause s) SELECT
                      [VStr (Name table), VList (map VStr (FieldNames table))];
               (sql, vars) = Build cs [SELECT, WHERE, ORDERBY, LIMIT]
           in case QueryRows ex sql vars of
                Inl err \<Rightarrow>
                  \<lparr>find_outcome = Returned (Some err), find_dest = values,
                   find_calls = [QueryCall sql vars]\<rparr>
              | Inr rows \<Rightarrow>
                  (case Find_rows destType (FieldNames table) destSlice (pending rows) of
                     (Exhausted, ds) \<Rightarrow>
                       \<lparr>find_outcome = Returned (close_result rows),
                        find_dest = write_back values ds,
                        find_calls = [QueryCall sql vars, CloseCall]\<rparr>
                   | (ScanFailed sErr, ds) \<Rightarrow>
                       \<lparr>find_outcome = Returned (Some sErr),
                        find_dest = write_back values ds,
                        find_calls = [QueryCall sql vars]\<rparr>
                   | (LoopPanicked p, ds) \<Rightarrow>
                       \<lparr>find_outcome = Panicked p,
                        find_dest = write_back values ds,
                        find_calls = [QueryCall sql vars]\<rparr>)))))))"

section \<open>Vocabulary of the properties\<close>

text \<open>The statement \<open>Find\<close> builds for a table: lines 40 and 41.\<close>

definition select_statement :: "generators \<Rightarrow> clause_set \<Rightarrow> TableSchema \<Rightarrow> fragment" where
  "select_statement gen cs table =
     Build (Set gen cs SELECT [VStr (Name table), VList (map VStr (FieldNames table))])
       [SELECT, WHERE, ORDERBY, LIMIT]"

text \<open>The schema a value has, when it has one.\<close>

definition schema_of :: "iface \<Rightarrow> TableSchema option" where
  "schema_of v =
     (case model_type v of
        None \<Rightarrow> None
      | Some t \<Rightarrow> (case Parse t of Inl e \<Rightarrow> None | Inr table \<Rightarrow> Some table))"

text \<open>A cache that holds, for each type in it, the schema derived from that type: what
  calls of \<open>Model\<close> on an empty cache produce.\<close>

definition registry_ok :: "registry \<Rightarrow> bool" where
  "registry_ok reg = list_all (\<lambda>(t, table). Parse t = Inr table) reg"

text \<open>A row that \<open>Scan\<close> accepts for the given field names, and the error of one it
  rejects.\<close>

definition scans :: "string list \<Rightarrow> Row \<Rightarrow> bool" where
  "scans names row \<longleftrightarrow> scan_fail row = None \<and> length (cols row) = length names"

definition scan_error :: "Row \<Rightarrow> error" where
  "scan_error row =
     (case scan_fail row of
        Some e \<Rightarrow> e
      | None \<Rightarrow> ScanError ''wrong number of destination arguments'')"

text \<open>The element a row becomes: a zero value of the element type with the row's
  columns stored, in order, in the named fields.\<close>

definition materialize :: "gotype \<Rightarrow> string list \<Rightarrow> Row \<Rightarrow> goval" where
  "materialize destType names row = assign (map FieldPtr names) (cols row) (zero destType)"

text \<open>A slice after appending \<open>xs\<close>, one at a time: untouched when there is nothing to
  append, so that a nil slice stays nil.\<close>

definition appended :: "goval \<Rightarrow> goval list \<Rightarrow> goval" where
  "appended d xs = (if xs = [] then d else VList (elems d @ xs))"

text \<open>The records of a batch, one per value with its table.\<close>

definition records :: "iface list \<Rightarrow> TableSchema list \<Rightarrow> goval list" where
  "records values tables = map2 (\<lambda>v table. VList (RecordValues table v)) values tables"

definition insert_args :: "TableSchema \<Rightarrow> goval list" where
  "insert_args table = [VStr (Name table), VList (map VStr (FieldNames table))]"

text \<open>What a kind contributes to a built statement: its stored text and parameters,
  nothing when the kind was never set.\<close>

definition stored_sql :: "clause_set \<Rightarrow> ClauseKind \<Rightarrow> string" where
  "stored_sql cs k = (case cs k of None \<Rightarrow> [] | Some (sql, vars) \<Rightarrow> sql)"

definition stored_vars :: "clause_set \<Rightarrow> ClauseKind \<Rightarrow> goval list" where
  "stored_vars cs k = (case cs k of None \<Rightarrow> [] | Some (sql, vars) \<Rightarrow> vars)"

definition closes :: "event list \<Rightarrow> nat" where
  "closes calls = length (filter (\<lambda>e. e = CloseCall) calls)"

section \<open>A concrete session\<close>

text \<open>A rendering of the clause kinds in the manner of the clause package's
  generators, two struct types, a cursor and an executor, for running the model.\<close>

fun table_name :: "goval list \<Rightarrow> string" where
  "table_name (VStr n # args) = n"
| "table_name args = []"

definition render :: generators where
  "render kind args =
     (case kind of
        INSERT \<Rightarrow> (''INSERT INTO '' @ table_name args, [])
      | VALUES \<Rightarrow> ('' VALUES'', concat (map elems args))
      | SELECT \<Rightarrow> (''SELECT FROM '' @ table_name args, [])
      | _ \<Rightarrow> ([], args))"

definition User :: gotype where
  "User = TStruct ''User'' [(''Name'', TString), (''Age'', TInt)]"

definition Pet :: gotype where
  "Pet = TStruct ''Pet'' [(''Kind'', TString)]"

definition User_table :: TableSchema where
  "User_table =
     \<lparr>Name = ''User'',
      Fields = [\<lparr>FName = ''Name'', ColumnName = ''Name''\<rparr>,
                \<lparr>FName = ''Age'', ColumnName = ''Age''\<rparr>],
      FieldNames = [''Name'', ''Age'']\<rparr>"

definition Pet_table :: TableSchema where
  "Pet_table =
     \<lparr>Name = ''Pet'',
      Fields = [\<lparr>FName = ''Kind'', ColumnName = ''Kind''\<rparr>],
      FieldNames = [''Kind'']\<rparr>"

definition user :: "string \<Rightarrow> int \<Rightarrow> goval" where
  "user n a = VStruct [(''Name'', VStr n), (''Age'', VInt a)]"

definition user_row :: "string \<Rightarrow> int \<Rightarrow> Row" where
  "user_row n a = \<lparr>cols = [VStr n, VInt a], scan_fail = None\<rparr>"

definition bad_row :: Row where
  "bad_row = \<lparr>cols = [VStr ''Sam'', VStr ''x''], scan_fail = Some (ScanError ''Age'')\<rparr>"

definition executor_with :: "Row list \<Rightarrow> error option \<Rightarrow> Executor" where
  "executor_with rs c =
     \<lparr>Exec = (\<lambda>sql vars. Inr (of_nat (length vars), None)),
      QueryRows = (\<lambda>sql vars. Inr \<lparr>pending = rs, close_result = c\<rparr>)\<rparr>"

definition fresh :: Session where
  "fresh = \<lparr>clause = Map.empty, registry = []\<rparr>"

section \<open>The reflect calls on a struct element\<close>

lemma field_target_ok:
  "n \<in> fst ` set fs \<Longrightarrow> exported n \<Longrightarrow>
   field_target (Value (TStruct nm fs) d True False) n = Inr (FieldPtr n)"
  by (auto simp: field_target_def map_of_eq_None_iff split: option.splits)

lemma field_targets_ok:
  "\<forall>n\<in>set names. n \<in> fst ` set fs \<and> exported n \<Longrightarrow>
   field_targets (Value (TStruct nm fs) d True False) names = Inr (map FieldPtr names)"
  by (induction names) (simp_all add: field_target_ok)

section \<open>Schema derivation\<close>

lemma Parse_names:
  assumes "Parse (TStruct nm fs) = Inr table"
  shows "FieldNames table = map fst (filter mappable fs)"
    and "Name table = nm"
    and "\<forall>n\<in>set (FieldNames table). n \<in> fst ` set fs \<and> exported n"
  using assms by (auto simp: Let_def mappable_def split: if_splits)

lemma schema_of_struct:
  "Parse (TStruct nm fs) = Inr table \<Longrightarrow> schema_of (Some (TStruct nm fs, d)) = Some table"
  by (simp add: schema_of_def)

lemma Model_ok:
  assumes "registry_ok reg" and "schema_of v = Some table"
  shows "\<exists>reg'. Model reg v = Inr (reg', table) \<and> registry_ok reg'"
proof -
  from assms(2) obtain t where t: "model_type v = Some t" "Parse t = Inr table"
    by (auto simp: schema_of_def split: option.splits sum.splits)
  show ?thesis
  proof (cases "map_of reg t")
    case None
    with t assms(1) show ?thesis by (simp add: Model_def registry_ok_def)
  next
    case (Some cached)
    then have "(t, cached) \<in> set reg" by (rule map_of_SomeD)
    with assms(1) t have "cached = table" by (auto simp: registry_ok_def list_all_iff)
    with Some t assms(1) show ?thesis by (simp add: Model_def)
  qed
qed

section \<open>The row loop\<close>

lemma appended_step: "appended (VList (elems d @ [x])) xs = appended d (x # xs)"
  by (simp add: appended_def)

lemma elems_appended: "elems (appended d xs) = elems d @ xs"
  by (simp add: appended_def)

lemma Find_rows_step:
  assumes "\<forall>n\<in>set names. n \<in> fst ` set fs \<and> exported n"
    and "scans names row"
  shows "Find_rows (TStruct nm fs) names (Value (TSlice (TStruct nm fs)) d True False) (row # rest) =
         Find_rows (TStruct nm fs) names
           (Value (TSlice (TStruct nm fs))
              (VList (elems d @ [materialize (TStruct nm fs) names row])) True False) rest"
  using assms by (simp add: New_def field_targets_ok Scan_def scans_def materialize_def)

lemma Find_rows_fail:
  assumes "\<forall>n\<in>set names. n \<in> fst ` set fs \<and> exported n"
    and "\<not> scans names row"
  shows "Find_rows (TStruct nm fs) names (Value (TSlice (TStruct nm fs)) d True False) (row # rest) =
         (ScanFailed (scan_error row), Value (TSlice (TStruct nm fs)) d True False)"
  using assms
  by (auto simp add: New_def field_targets_ok Scan_def scans_def scan_error_def
      split: option.splits)

lemma Find_rows_prefix:
  assumes "\<forall>n\<in>set names. n \<in> fst ` set fs \<and> exported n"
    and "\<forall>r\<in>set pre. scans names r"
  shows "Find_rows (TStruct nm fs) names (Value (TSlice (TStruct nm fs)) d True False) (pre @ rest) =
         Find_rows (TStruct nm fs) names
           (Value (TSlice (TStruct nm fs))
              (appended d (map (materialize (TStruct nm fs) names) pre)) True False) rest"
  using assms(2)
proof (induction pre arbitrary: d)
  case Nil
  then show ?case by (simp add: appended_def)
next
  case (Cons r pre)
  then show ?case
    using Find_rows_step[OF assms(1), of r nm d "pre @ rest"]
    by (simp add: appended_step del: Find_rows.simps)
qed

lemma Find_rows_all:
  assumes "\<forall>n\<in>set names. n \<in> fst ` set fs \<and> exported n"
    and "\<forall>r\<in>set rows. scans names r"
  shows "Find_rows (TStruct nm fs) names (Value (TSlice (TStruct nm fs)) d True False) rows =
         (Exhausted, Value (TSlice (TStruct nm fs))
            (appended d (map (materialize (TStruct nm fs) names) rows)) True False)"
  using Find_rows_prefix[OF assms, of nm d "[]"] by simp

lemma Find_rows_abort:
  assumes "\<forall>n\<in>set names. n \<in> fst ` set fs \<and> exported n"
    and "\<forall>r\<in>set pre. scans names r" and "\<not> scans names bad"
  shows "Find_rows (TStruct nm fs) names (Value (TSlice (TStruct nm fs)) d True False)
           (pre @ bad # post) =
         (ScanFailed (scan_error bad), Value (TSlice (TStruct nm fs))
            (appended d (map (materialize (TStruct nm fs) names) pre)) True False)"
  using Find_rows_prefix[OF assms(1,2), of nm d "bad # post"] Find_rows_fail[OF assms(1,3)]
  by (simp del: Find_rows.simps)

text \<open>Every run of the loop over an addressable slice of structs is one of the two
  above: all rows scan, or there is a first row that does not.\<close>

lemma Find_rows_cases:
  assumes names: "\<forall>n\<in>set names. n \<in> fst ` set fs \<and> exported n"
  shows "(\<forall>r\<in>set rows. scans names r) \<and>
           Find_rows (TStruct nm fs) names (Value (TSlice (TStruct nm fs)) d True False) rows =
           (Exhausted, Value (TSlice (TStruct nm fs))
              (appended d (map (materialize (TStruct nm fs) names) rows)) True False)
         \<or> (\<exists>pre bad post. rows = pre @ bad # post \<and> (\<forall>r\<in>set pre. scans names r) \<and>
              \<not> scans names bad \<and>
              Find_rows (TStruct nm fs) names (Value (TSlice (TStruct nm fs)) d True False) rows =
              (ScanFailed (scan_error bad), Value (TSlice (TStruct nm fs))
                 (appended d (map (materialize (TStruct nm fs) names) pre)) True False))"
proof (cases "\<forall>r\<in>set rows. scans names r")
  case True
  then show ?thesis using Find_rows_all[OF names] by blast
next
  case False
  then have "\<exists>r\<in>set rows. \<not> scans names r" by blast
  then obtain pre bad post where
    split: "rows = pre @ bad # post" "\<not> scans names bad" "\<forall>r\<in>set pre. \<not> \<not> scans names r"
    using split_list_first_prop[of rows "\<lambda>r. \<not> scans names r"] by blast
  then have pre: "\<forall>r\<in>set pre. scans names r" by blast
  show ?thesis
    using Find_rows_abort[OF names pre split(2)] split(1,2) pre by blast
qed

section \<open>Scanning is positional\<close>

lemma store_field_keys: "map fst (store_field n c vs) = map fst vs"
  by (induction vs) auto

lemma map_of_store_field_same:
  "n \<in> fst ` set vs \<Longrightarrow> map_of (store_field n c vs) n = Some c"
  by (induction vs) force+

lemma map_of_store_field_other:
  "m \<noteq> n \<Longrightarrow> map_of (store_field n c vs) m = map_of vs m"
  by (induction vs) auto

lemma field_data_assign_other:
  "n \<notin> set names \<Longrightarrow>
   field_data (assign (map FieldPtr names) cs (VStruct vs)) n = field_data (VStruct vs) n"
proof (induction names arbitrary: cs vs)
  case Nil
  then show ?case by simp
next
  case (Cons a names)
  then show ?case by (cases cs) (simp_all add: map_of_store_field_other)
qed

lemma assign_nth:
  "distinct names \<Longrightarrow> set names \<subseteq> fst ` set vs \<Longrightarrow> length cs = length names \<Longrightarrow>
   j < length names \<Longrightarrow>
   field_data (assign (map FieldPtr names) cs (VStruct vs)) (names ! j) = cs ! j"
proof (induction names arbitrary: cs vs j)
  case Nil
  then show ?case by simp
next
  case (Cons n names)
  then obtain c cs' where cs: "cs = c # cs'" by (cases cs) auto
  show ?case
  proof (cases j)
    case 0
    with Cons.prems cs show ?thesis
      by (simp add: field_data_assign_other map_of_store_field_same)
  next
    case (Suc k)
    have "set (map fst (store_field n c vs)) = set (map fst vs)"
      by (simp only: store_field_keys)
    then have keys: "set names \<subseteq> fst ` set (store_field n c vs)"
      using Cons.prems(2) by auto
    from Suc Cons.prems cs Cons.IH[of "store_field n c vs" cs' k, OF _ keys]
    show ?thesis by simp
  qed
qed

lemma zero_struct_keys: "fst ` set (map (\<lambda>(n, t). (n, zero t)) fs) = fst ` set fs"
  by force

lemma materialize_nth:
  assumes "distinct names" "set names \<subseteq> fst ` set fs" "length (cols row) = length names"
    "j < length names"
  shows "field_data (materialize (TStruct nm fs) names row) (names ! j) = cols row ! j"
  unfolding materialize_def zero.simps
  using assign_nth[OF assms(1) _ assms(3,4), of "map (\<lambda>(n, t). (n, zero t)) fs"] assms(2)
  by (simp only: zero_struct_keys)

section \<open>Find on a pointer to a slice of structs\<close>

lemma Find_unfold:
  assumes reg: "registry_ok (registry s)"
    and parse: "Parse (TStruct nm fs) = Inr table"
  shows "Find gen ex s (Some (TPtr (TSlice (TStruct nm fs)), VRef d)) =
     (case QueryRows ex (fst (select_statement gen (clause s) table))
             (snd (select_statement gen (clause s) table)) of
        Inl err \<Rightarrow>
          \<lparr>find_outcome = Returned (Some err),
           find_dest = Some (TPtr (TSlice (TStruct nm fs)), VRef d),
           find_calls = [QueryCall (fst (select_statement gen (clause s) table))
                           (snd (select_statement gen (clause s) table))]\<rparr>
      | Inr rows \<Rightarrow>
     (case Find_rows (TStruct nm fs) (FieldNames table)
             (Value (TSlice (TStruct nm fs)) d True False) (pending rows) of
        (Exhausted, ds) \<Rightarrow>
          \<lparr>find_outcome = Returned (close_result rows),
           find_dest = write_back (Some (TPtr (TSlice (TStruct nm fs)), VRef d)) ds,
           find_calls = [QueryCall (fst (select_statement gen (clause s) table))
                           (snd (select_statement gen (clause s) table)), CloseCall]\<rparr>
      | (ScanFailed sErr, ds) \<Rightarrow>
          \<lparr>find_outcome = Returned (Some sErr),
           find_dest = write_back (Some (TPtr (TSlice (TStruct nm fs)), VRef d)) ds,
           find_calls = [QueryCall (fst (select_statement gen (clause s) table))
                           (snd (select_statement gen (clause s) table))]\<rparr>
      | (LoopPanicked p, ds) \<Rightarrow>
          \<lparr>find_outcome = Panicked p,
           find_dest = write_back (Some (TPtr (TSlice (TStruct nm fs)), VRef d)) ds,
           find_calls = [QueryCall (fst (select_statement gen (clause s) table))
                           (snd (select_statement gen (clause s) table))]\<rparr>))"
proof -
  obtain reg' where
    m: "Model (registry s) (Some (TStruct nm fs, zero (TStruct nm fs))) = Inr (reg', table)"
    using Model_ok[OF reg schema_of_struct[OF parse]] by blast
  obtain sql vars where sv: "select_statement gen (clause s) table = (sql, vars)"
    by (cases "select_statement gen (clause s) table")
  have b: "Build (Set gen (clause s) SELECT
             [VStr (Name table), VList (map VStr (FieldNames table))])
             [SELECT, WHERE, ORDERBY, LIMIT] = (sql, vars)"
    using sv by (simp add: select_statement_def)
  show ?thesis
    unfolding Find_def sv fst_conv snd_conv
    by (simp add: ValueOf_def New_def m b del: zero.simps)
qed

lemma Find_exhausted:
  assumes reg: "registry_ok (registry s)"
    and parse: "Parse (TStruct nm fs) = Inr table"
    and query: "QueryRows ex (fst (select_statement gen (clause s) table))
                  (snd (select_statement gen (clause s) table)) = Inr rows"
    and rows: "\<forall>r\<in>set (pending rows). scans (FieldNames table) r"
  shows "Find gen ex s (Some (TPtr (TSlice (TStruct nm fs)), VRef d)) =
     \<lparr>find_outcome = Returned (close_result rows),
      find_dest = Some (TPtr (TSlice (TStruct nm fs)),
        VRef (appended d (map (materialize (TStruct nm fs) (FieldNames table)) (pending rows)))),
      find_calls = [QueryCall (fst (select_statement gen (clause s) table))
                      (snd (select_statement gen (clause s) table)), CloseCall]\<rparr>"
  unfolding Find_unfold[OF reg parse] query
  by (simp add: Find_rows_all[OF Parse_names(3)[OF parse] rows])

lemma Find_aborted:
  assumes reg: "registry_ok (registry s)"
    and parse: "Parse (TStruct nm fs) = Inr table"
    and query: "QueryRows ex (fst (select_statement gen (clause s) table))
                  (snd (select_statement gen (clause s) table)) = Inr rows"
    and split: "pending rows = pre @ bad # post"
    and pre: "\<forall>r\<in>set pre. scans (FieldNames table) r"
    and bad: "\<not> scans (FieldNames table) bad"
  shows "Find gen ex s (Some (TPtr (TSlice (TStruct nm fs)), VRef d)) =
     \<lparr>find_outcome = Returned (Some (scan_error bad)),
      find_dest = Some (TPtr (TSlice (TStruct nm fs)),
        VRef (appended d (map (materialize (TStruct nm fs) (FieldNames table)) pre))),
      find_calls = [QueryCall (fst (select_statement gen (clause s) table))
                      (snd (select_statement gen (clause s) table))]\<rparr>"
  unfolding Find_unfold[OF reg parse] query
  by (simp add: split Find_rows_abort[OF Parse_names(3)[OF parse] pre bad]
      del: Find_rows.simps)

lemma Find_rows_no_panic:
  assumes "\<forall>n\<in>set names. n \<in> fst ` set fs \<and> exported n"
  shows "fst (Find_rows (TStruct nm fs) names (Value (TSlice (TStruct nm fs)) d True False) rows)
           \<noteq> LoopPanicked p"
  using Find_rows_cases[OF assms, of rows nm d] by auto

section \<open>Building statements\<close>

lemma Build_loop_eq:
  "Build_loop cs ks sql vars =
     (sql @ concat (map (stored_sql cs) ks), vars @ concat (map (stored_vars cs) ks))"
  by (induction ks arbitrary: sql vars)
     (auto simp: stored_sql_def stored_vars_def split: option.splits)

lemma Build_eq:
  "Build cs ks = (concat (map (stored_sql cs) ks), concat (map (stored_vars cs) ks))"
  by (simp add: Build_def Build_loop_eq)

section \<open>The loop of Insert\<close>

lemma Insert_loop_ok:
  assumes "list_all2 (\<lambda>v table. schema_of v = Some table) values tables"
    and "registry_ok (registry s)"
  shows "\<exists>s'. Insert_loop gen s values acc = Inr (s', acc @ records values tables) \<and>
           registry_ok (registry s') \<and>
           clause s' = (if tables = [] then clause s
                        else (clause s)(INSERT \<mapsto> gen INSERT (insert_args (last tables))))"
  using assms
proof (induction "values" tables arbitrary: s acc rule: list_all2_induct)
  case Nil
  then show ?case by (simp add: records_def)
next
  case (Cons v vs table tables)
  from Model_ok[OF Cons.prems Cons.hyps(1)] obtain reg' where
    m: "Model (registry s) v = Inr (reg', table)" and ok: "registry_ok reg'"
    by blast
  let ?s1 = "\<lparr>clause = Set gen (clause s) INSERT
                 [VStr (Name table), VList (map VStr (FieldNames table))],
              registry = reg'\<rparr>"
  from Cons.IH[of ?s1 "acc @ [VList (RecordValues table v)]"] ok obtain s' where
    s': "Insert_loop gen ?s1 vs (acc @ [VList (RecordValues table v)]) =
           Inr (s', (acc @ [VList (RecordValues table v)]) @ records vs tables)"
       "registry_ok (registry s')"
       "clause s' = (if tables = [] then clause ?s1
                     else (clause ?s1)(INSERT \<mapsto> gen INSERT (insert_args (last tables))))"
    by auto
  show ?case
    using m s' by (auto simp: records_def Set_def insert_args_def)
qed

lemma Insert_unfold:
  assumes "list_all2 (\<lambda>v table. schema_of v = Some table) values tables"
    and "registry_ok (registry s)" and "tables \<noteq> []"
  shows "Insert gen ex s values =
     (case Exec ex (fst (gen INSERT (insert_args (last tables))) @
                    fst (gen VALUES (records values tables)))
                   (snd (gen INSERT (insert_args (last tables))) @
                    snd (gen VALUES (records values tables))) of
        Inl err \<Rightarrow>
          \<lparr>insert_outcome = Returned (0, Some err),
           insert_calls = [ExecCall (fst (gen INSERT (insert_args (last tables))) @
                                     fst (gen VALUES (records values tables)))
                                    (snd (gen INSERT (insert_args (last tables))) @
                                     snd (gen VALUES (records values tables)))]\<rparr>
      | Inr result \<Rightarrow>
          \<lparr>insert_outcome = Returned result,
           insert_calls = [ExecCall (fst (gen INSERT (insert_args (last tables))) @
                                     fst (gen VALUES (records values tables)))
                                    (snd (gen INSERT (insert_args (last tables))) @
                                     snd (gen VALUES (records values tables)))]\<rparr>)"
proof -
  from Insert_loop_ok[OF assms(1,2), of gen "[]"] assms(3) obtain s' where
    loop: "Insert_loop gen s values [] = Inr (s', records values tables)"
    and cl: "clause s' = (clause s)(INSERT \<mapsto> gen INSERT (insert_args (last tables)))"
    by auto
  have b: "Build (Set gen (clause s') VALUES (records values tables)) [INSERT, VALUES] =
     (fst (gen INSERT (insert_args (last tables))) @ fst (gen VALUES (records values tables)),
      snd (gen INSERT (insert_args (last tables))) @ snd (gen VALUES (records values tables)))"
    by (simp add: Build_eq cl Set_def stored_sql_def stored_vars_def split: prod.splits)
  show ?thesis
    unfolding Insert_def loop by (simp add: b)
qed

lemma Insert_returns:
  assumes "\<forall>v\<in>set values. schema_of v \<noteq> None" and "registry_ok (registry s)"
  shows "\<exists>r. insert_outcome (Insert gen ex s values) = Returned r"
proof -
  have "list_all2 (\<lambda>v table. schema_of v = Some table) values (map (\<lambda>v. the (schema_of v)) values)"
    using assms(1) by (auto simp: list_all2_conv_all_nth)
  from Insert_loop_ok[OF this assms(2), of gen "[]"] obtain s' rv where
    "Insert_loop gen s values [] = Inr (s', rv)" by auto
  then show ?thesis
    by (simp add: Insert_def split: prod.splits sum.splits)
qed

section \<open>Flattened records\<close>

lemma concat_nth_uniform:
  assumes "\<forall>x\<in>set xs. length (f x) = k" and "i < length xs" and "j < k"
  shows "concat (map f xs) ! (i * k + j) = f (xs ! i) ! j"
  using assms
proof (induction xs arbitrary: i)
  case Nil
  then show ?case by simp
next
  case (Cons x xs)
  show ?case
  proof (cases i)
    case 0
    with Cons.prems show ?thesis by (simp add: nth_append)
  next
    case (Suc m)
    with Cons.prems have "concat (map f xs) ! (m * k + j) = f (xs ! m) ! j"
      using Cons.IH[of m] by simp
    moreover have "length (f x) = k" using Cons.prems by simp
    ultimately show ?thesis using Suc by (simp add: nth_append)
  qed
qed

lemma length_concat_uniform:
  "\<forall>x\<in>set xs. length (f x) = k \<Longrightarrow> length (concat (map f xs)) = length xs * k"
  by (induction xs) auto

lemma Insert_calls:
  assumes "list_all2 (\<lambda>v table. schema_of v = Some table) values tables"
    and "registry_ok (registry s)" and "tables \<noteq> []"
  shows "insert_calls (Insert gen ex s values) =
     [ExecCall (fst (gen INSERT (insert_args (last tables))) @
                fst (gen VALUES (records values tables)))
               (snd (gen INSERT (insert_args (last tables))) @
                snd (gen VALUES (records values tables)))]"
  unfolding Insert_unfold[OF assms] by (simp split: sum.splits)

lemma records_same_type:
  "records (map (\<lambda>d. Some (TStruct nm fs, d)) ds) (replicate (length ds) table) =
   map (\<lambda>d. VList (map (field_data d) (FieldNames table))) ds"
  by (induction ds) (simp_all add: records_def RecordValues_def ValueOf_def)

lemma same_type_tables:
  "Parse (TStruct nm fs) = Inr table \<Longrightarrow>
   list_all2 (\<lambda>v table. schema_of v = Some table)
     (map (\<lambda>d. Some (TStruct nm fs, d)) ds) (replicate (length ds) table)"
  by (simp add: list_all2_conv_all_nth schema_of_struct)

section \<open>Running the concrete session\<close>

lemmas run_simps =
  Find_def Insert_def ValueOf_def New_def Model_def Set_def Build_def Scan_def
  RecordValues_def field_target_def mappable_def exported_def closes_def
  User_def Pet_def User_table_def Pet_table_def user_def user_row_def bad_row_def
  render_def executor_with_def fresh_def

lemma Parse_User: "Parse User = Inr User_table"
  by (simp add: User_def User_table_def mappable_def exported_def)

lemma Parse_Pet: "Parse Pet = Inr Pet_table"
  by (simp add: Pet_def Pet_table_def mappable_def exported_def)

lemma Parse_User_fields:
  "Parse (TStruct ''User'' [(''Name'', TString), (''Age'', TInt)]) = Inr User_table"
  using Parse_User by (simp add: User_def)

lemma fresh_ok: "registry_ok (registry fresh)"
  by (simp add: fresh_def registry_ok_def)

lemma executor_with_query:
  "QueryRows (executor_with rs c) sql vars = Inr \<lparr>pending = rs, close_result = c\<rparr>"
  by (simp add: executor_with_def)

section \<open>Find: the cursor and the destination\<close>

text \<open>
  Claim C10. When every row of the cursor scans, \<open>Find\<close> returns what the cursor's \<open>Close\<close>
  returns, an error included, and the destination by then holds an element for every
  row, after what it held before; the cursor was closed once.
\<close>

theorem Find_returns_Close_result:
  assumes "registry_ok (registry s)"
    and "Parse (TStruct nm fs) = Inr table"
    and "QueryRows ex (fst (select_statement gen (clause s) table))
           (snd (select_statement gen (clause s) table)) = Inr rows"
    and "\<forall>r\<in>set (pending rows). scans (FieldNames table) r"
  shows "find_outcome (Find gen ex s (Some (TPtr (TSlice (TStruct nm fs)), VRef d))) =
           Returned (close_result rows) \<and>
         find_dest (Find gen ex s (Some (TPtr (TSlice (TStruct nm fs)), VRef d))) =
           Some (TPtr (TSlice (TStruct nm fs)),
             VRef (appended d
               (map (materialize (TStruct nm fs) (FieldNames table)) (pending rows)))) \<and>
         closes (find_calls (Find gen ex s (Some (TPtr (TSlice (TStruct nm fs)), VRef d)))) = 1"
  by (simp add: Find_exhausted[OF assms] closes_def)

theorem Find_returns_Close_result_witness:
  "find_outcome
     (Find render
        (executor_with [user_row ''Tom'' 18, user_row ''Jo'' 3]
           (Some (ExecutorError ''connection lost'')))
        fresh (Some (TPtr (TSlice User), VRef VNil))) =
     Returned (Some (ExecutorError ''connection lost'')) \<and>
   find_dest
     (Find render
        (executor_with [user_row ''Tom'' 18, user_row ''Jo'' 3]
           (Some (ExecutorError ''connection lost'')))
        fresh (Some (TPtr (TSlice User), VRef VNil))) =
     Some (TPtr (TSlice User), VRef (VList [user ''Tom'' 18, user ''Jo'' 3]))"
proof -
  have rows: "\<forall>r\<in>set (pending \<lparr>pending = [user_row ''Tom'' 18, user_row ''Jo'' 3],
      close_result = Some (ExecutorError ''connection lost'')\<rparr>).
      scans (FieldNames User_table) r"
    by (simp add: scans_def User_table_def user_row_def)
  show ?thesis
    using Find_returns_Close_result
      [OF fresh_ok Parse_User_fields executor_with_query rows, of render VNil]
    by (simp add: User_def User_table_def appended_def materialize_def user_row_def user_def)
qed

text \<open>
  Claim C1, at the input of the specification's own test: a cursor of three rows whose
  second row fails to scan. \<open>Find\<close> returns the scan error through the early return of
  line 54 and the cursor's \<open>Close\<close> is never called: the only call to it is the last
  line of \<open>Find\<close>, which that return skips. The destination holds the first row's element.
\<close>

theorem Find_scan_error_skips_Close:
  "find_outcome
     (Find render (executor_with [user_row ''Tom'' 18, bad_row, user_row ''Jo'' 3] None)
        fresh (Some (TPtr (TSlice User), VRef VNil))) =
     Returned (Some (ScanError ''Age'')) \<and>
   closes (find_calls
     (Find render (executor_with [user_row ''Tom'' 18, bad_row, user_row ''Jo'' 3] None)
        fresh (Some (TPtr (TSlice User), VRef VNil)))) = 0 \<and>
   find_dest
     (Find render (executor_with [user_row ''Tom'' 18, bad_row, user_row ''Jo'' 3] None)
        fresh (Some (TPtr (TSlice User), VRef VNil))) =
     Some (TPtr (TSlice User), VRef (VList [user ''Tom'' 18]))"
  by (simp add: run_simps)

text \<open>
  Claim C4 as stated fails when the destination is not empty before the call: with one
  element in it and a scan failure at row 2, it holds two elements afterwards, not the
  one element of row 1 alone.
\<close>

theorem Find_scan_error_keeps_prior_elements:
  "find_outcome
     (Find render (executor_with [user_row ''Tom'' 18, bad_row, user_row ''Jo'' 3] None)
        fresh (Some (TPtr (TSlice User), VRef (VList [user ''Ann'' 40])))) =
     Returned (Some (ScanError ''Age'')) \<and>
   find_dest
     (Find render (executor_with [user_row ''Tom'' 18, bad_row, user_row ''Jo'' 3] None)
        fresh (Some (TPtr (TSlice User), VRef (VList [user ''Ann'' 40])))) =
     Some (TPtr (TSlice User), VRef (VList [user ''Ann'' 40, user ''Tom'' 18])) \<and>
   length [user ''Ann'' 40, user ''Tom'' 18] \<noteq> 2 - (1::nat)"
  by (simp add: run_simps)

text \<open>
  Claim C4, amended. When the rows before row \<open>i\<close> scan and row \<open>i\<close> does not, \<open>Find\<close>
  stops there and returns that row's scan error, and the destination holds what it held
  before the call followed by the \<open>i - 1\<close> elements of the rows before the failing one,
  in row order. With no row before the failing one the destination is as it was.
\<close>

theorem Find_scan_error_partial_result:
  assumes "registry_ok (registry s)"
    and "Parse (TStruct nm fs) = Inr table"
    and "QueryRows ex (fst (select_statement gen (clause s) table))
           (snd (select_statement gen (clause s) table)) = Inr rows"
    and "pending rows = pre @ bad # post"
    and "\<forall>r\<in>set pre. scans (FieldNames table) r"
    and "\<not> scans (FieldNames table) bad"
  shows "find_outcome (Find gen ex s (Some (TPtr (TSlice (TStruct nm fs)), VRef d))) =
           Returned (Some (scan_error bad)) \<and>
         find_dest (Find gen ex s (Some (TPtr (TSlice (TStruct nm fs)), VRef d))) =
           Some (TPtr (TSlice (TStruct nm fs)),
             VRef (appended d (map (materialize (TStruct nm fs) (FieldNames table)) pre))) \<and>
         elems (appended d (map (materialize (TStruct nm fs) (FieldNames table)) pre)) =
           elems d @ map (materialize (TStruct nm fs) (FieldNames table)) pre"
  by (simp add: Find_aborted[OF assms] elems_appended)

theorem Find_scan_error_partial_result_witness:
  "find_outcome
     (Find render (executor_with [user_row ''Tom'' 18, bad_row, user_row ''Jo'' 3] None)
        fresh (Some (TPtr (TSlice User), VRef (VList [user ''Ann'' 40])))) =
     Returned (Some (scan_error bad_row)) \<and>
   elems (appended (VList [user ''Ann'' 40])
     (map (materialize User (FieldNames User_table)) [user_row ''Tom'' 18])) =
     [user ''Ann'' 40, user ''Tom'' 18]"
proof -
  have split: "pending \<lparr>pending = [user_row ''Tom'' 18, bad_row, user_row ''Jo'' 3],
      close_result = None\<rparr> = [user_row ''Tom'' 18] @ bad_row # [user_row ''Jo'' 3]"
    by simp
  have pre: "\<forall>r\<in>set [user_row ''Tom'' 18]. scans (FieldNames User_table) r"
    by (simp add: scans_def User_table_def user_row_def)
  have bad: "\<not> scans (FieldNames User_table) bad_row"
    by (simp add: scans_def bad_row_def)
  show ?thesis
    using Find_scan_error_partial_result
      [OF fresh_ok Parse_User_fields executor_with_query split pre bad,
       of render "VList [user ''Ann'' 40]"]
    by (simp add: User_def User_table_def appended_def materialize_def user_row_def user_def)
qed

text \<open>
  Claim C5 as stated fails: on a nil destination, the usual \<open>var users []User\<close>, and a
  cursor without rows, \<open>Find\<close> succeeds and the destination is still the nil slice.
\<close>

theorem Find_zero_rows_leaves_nil:
  "find_outcome
     (Find render (executor_with [] None) fresh (Some (TPtr (TSlice User), VRef VNil))) =
     Returned None \<and>
   find_dest
     (Find render (executor_with [] None) fresh (Some (TPtr (TSlice User), VRef VNil))) =
     Some (TPtr (TSlice User), VRef VNil)"
  by (simp add: run_simps)

text \<open>
  Claim C5, amended. When the query yields no row, \<open>Find\<close> returns what the cursor's
  \<open>Close\<close> returns (no error when \<open>Close\<close> succeeds) and leaves the destination exactly as
  it was before the call: an empty destination stays empty and a nil one stays nil.
\<close>

theorem Find_zero_rows_unchanged:
  assumes "registry_ok (registry s)"
    and "Parse (TStruct nm fs) = Inr table"
    and "QueryRows ex (fst (select_statement gen (clause s) table))
           (snd (select_statement gen (clause s) table)) = Inr rows"
    and "pending rows = []"
  shows "find_outcome (Find gen ex s (Some (TPtr (TSlice (TStruct nm fs)), VRef d))) =
           Returned (close_result rows) \<and>
         find_dest (Find gen ex s (Some (TPtr (TSlice (TStruct nm fs)), VRef d))) =
           Some (TPtr (TSlice (TStruct nm fs)), VRef d)"
  using Find_exhausted[OF assms(1,2,3), of d] assms(4) by (simp add: appended_def)

theorem Find_zero_rows_unchanged_witness:
  "find_outcome
     (Find render (executor_with [] None) fresh
        (Some (TPtr (TSlice User), VRef (VList [])))) = Returned None \<and>
   find_dest
     (Find render (executor_with [] None) fresh
        (Some (TPtr (TSlice User), VRef (VList [])))) =
     Some (TPtr (TSlice User), VRef (VList []))"
proof -
  have none: "pending \<lparr>pending = [], close_result = None\<rparr> = []"
    by simp
  show ?thesis
    using Find_zero_rows_unchanged
      [OF fresh_ok Parse_User_fields executor_with_query none, of render "VList []"]
    by (simp add: User_def)
qed

text \<open>
  Claim C8. On a successful \<open>Find\<close> into a pointer to a slice of a struct type: the
  schema is the one \<open>Model\<close> gives for the zero value of the element type, whatever the
  destination holds; the statement sent to the executor is built from it; the
  destination keeps what it held and gains one element per row, in row order; and in
  the element of row \<open>i\<close> the field named by the \<open>j\<close>-th field name of the schema holds the
  \<open>j\<close>-th column of that row.
\<close>

theorem Find_preserves_row_order:
  assumes "registry_ok (registry s)"
    and "Parse (TStruct nm fs) = Inr table"
    and "distinct (map fst fs)"
    and "QueryRows ex (fst (select_statement gen (clause s) table))
           (snd (select_statement gen (clause s) table)) = Inr rows"
    and "find_outcome (Find gen ex s (Some (TPtr (TSlice (TStruct nm fs)), VRef d))) =
           Returned None"
  shows "(\<exists>reg. Model (registry s) (Some (TStruct nm fs, zero (TStruct nm fs))) =
                  Inr (reg, table)) \<and>
         find_calls (Find gen ex s (Some (TPtr (TSlice (TStruct nm fs)), VRef d))) =
           [QueryCall (fst (select_statement gen (clause s) table))
              (snd (select_statement gen (clause s) table)), CloseCall] \<and>
         (\<exists>ds. find_dest (Find gen ex s (Some (TPtr (TSlice (TStruct nm fs)), VRef d))) =
                  Some (TPtr (TSlice (TStruct nm fs)), VRef ds) \<and>
               length (elems ds) = length (elems d) + length (pending rows) \<and>
               take (length (elems d)) (elems ds) = elems d \<and>
               (\<forall>i<length (pending rows). \<forall>j<length (FieldNames table).
                  field_data (elems ds ! (length (elems d) + i)) (FieldNames table ! j) =
                  cols (pending rows ! i) ! j))"
proof -
  let ?T = "TStruct nm fs"
  let ?names = "FieldNames table"
  let ?run = "Find gen ex s (Some (TPtr (TSlice ?T), VRef d))"
  note names = Parse_names(3)[OF assms(2)]
  have all: "\<forall>r\<in>set (pending rows). scans ?names r"
  proof (rule ccontr)
    assume "\<not> ?thesis"
    then obtain pre bad post where
      "pending rows = pre @ bad # post" "\<forall>r\<in>set pre. scans ?names r" "\<not> scans ?names bad"
      using Find_rows_cases[OF names, of "pending rows" nm d] by blast
    from Find_aborted[OF assms(1,2,4) this, of d] assms(5) show False by simp
  qed
  note run = Find_exhausted[OF assms(1,2,4) all, of d]
  have dist: "distinct ?names"
    using assms(3) by (simp add: Parse_names(1)[OF assms(2)] distinct_map_filter)
  have sub: "set ?names \<subseteq> fst ` set fs" using names by blast
  have model: "\<exists>reg. Model (registry s) (Some (?T, zero ?T)) = Inr (reg, table)"
    using Model_ok[OF assms(1) schema_of_struct[OF assms(2)]] by blast
  let ?ds = "appended d (map (materialize ?T ?names) (pending rows))"
  have pos: "\<forall>i<length (pending rows). \<forall>j<length ?names.
      field_data (elems ?ds ! (length (elems d) + i)) (?names ! j) = cols (pending rows ! i) ! j"
  proof (intro allI impI)
    fix i j
    assume i: "i < length (pending rows)" and j: "j < length ?names"
    from i all have "length (cols (pending rows ! i)) = length ?names"
      by (simp add: scans_def)
    from materialize_nth[OF dist sub this j, of nm] i
    show "field_data (elems ?ds ! (length (elems d) + i)) (?names ! j) =
          cols (pending rows ! i) ! j"
      by (simp add: elems_appended)
  qed
  have "find_dest ?run = Some (TPtr (TSlice ?T), VRef ?ds) \<and>
        length (elems ?ds) = length (elems d) + length (pending rows) \<and>
        take (length (elems d)) (elems ?ds) = elems d"
    by (simp add: run elems_appended)
  with pos have "\<exists>ds. find_dest ?run = Some (TPtr (TSlice ?T), VRef ds) \<and>
        length (elems ds) = length (elems d) + length (pending rows) \<and>
        take (length (elems d)) (elems ds) = elems d \<and>
        (\<forall>i<length (pending rows). \<forall>j<length ?names.
           field_data (elems ds ! (length (elems d) + i)) (?names ! j) =
           cols (pending rows ! i) ! j)"
    by blast
  moreover have "find_calls ?run =
      [QueryCall (fst (select_statement gen (clause s) table))
         (snd (select_statement gen (clause s) table)), CloseCall]"
    by (simp add: run)
  ultimately show ?thesis using model by blast
qed

theorem Find_preserves_row_order_witness:
  "\<exists>ds. find_dest
          (Find render (executor_with [user_row ''Tom'' 18, user_row ''Jo'' 3] None) fresh
             (Some (TPtr (TSlice User), VRef (VList [user ''Ann'' 40])))) =
          Some (TPtr (TSlice User), VRef ds) \<and>
        length (elems ds) = 3 \<and>
        field_data (elems ds ! 2) ''Age'' = VInt 3"
proof -
  have dist: "distinct (map fst [(''Name'', TString), (''Age'', TInt)])"
    by simp
  have ok: "find_outcome
      (Find render (executor_with [user_row ''Tom'' 18, user_row ''Jo'' 3] None) fresh
         (Some (TPtr (TSlice (TStruct ''User'' [(''Name'', TString), (''Age'', TInt)])),
            VRef (VList [user ''Ann'' 40])))) = Returned None"
    by (simp add: run_simps)
  from Find_preserves_row_order[OF fresh_ok Parse_User_fields dist executor_with_query ok]
  obtain ds where
    ds: "find_dest
      (Find render (executor_with [user_row ''Tom'' 18, user_row ''Jo'' 3] None) fresh
         (Some (TPtr (TSlice (TStruct ''User'' [(''Name'', TString), (''Age'', TInt)])),
            VRef (VList [user ''Ann'' 40])))) =
       Some (TPtr (TSlice (TStruct ''User'' [(''Name'', TString), (''Age'', TInt)])), VRef ds)"
    and len: "length (elems ds) = length (elems (VList [user ''Ann'' 40])) +
        length (pending \<lparr>pending = [user_row ''Tom'' 18, user_row ''Jo'' 3],
          close_result = None\<rparr>)"
    and pos: "\<forall>i<length (pending \<lparr>pending = [user_row ''Tom'' 18, user_row ''Jo'' 3],
          close_result = None\<rparr>). \<forall>j<length (FieldNames User_table).
        field_data (elems ds ! (length (elems (VList [user ''Ann'' 40])) + i))
          (FieldNames User_table ! j) =
        cols (pending \<lparr>pending = [user_row ''Tom'' 18, user_row ''Jo'' 3],
          close_result = None\<rparr> ! i) ! j"
    by blast
  from pos[rule_format, of 1 1] have "field_data (elems ds ! 2) ''Age'' = VInt 3"
    by (simp add: User_table_def user_row_def numeral_2_eq_2)
  with ds len show ?thesis by (simp add: User_def)
qed

section \<open>Panics\<close>

text \<open>
  Claim C2 as stated fails: \<open>Find\<close> on an argument that is not a pointer to a
  collection, here the integer 42, panics in \<open>destSlice.Type().Elem()\<close> on line 37.
\<close>

theorem Find_panics_on_non_collection:
  "find_outcome (Find render (executor_with [] None) fresh (Some (TInt, VInt 42))) =
     Panicked (ElemOfInvalidType TInt)"
  by (simp add: run_simps)

text \<open>
  Claim C2, amended. \<open>Find\<close> returns, with or without an error, whenever its argument
  is a non-nil pointer to a slice of a struct type that has at least one exported field,
  and \<open>Insert\<close> returns whenever each of its values is such a struct or a pointer to
  one, the schema cache holding derived schemas only; this for every executor, every
  cursor and every rendering of the clauses. Outside these inputs \<open>Find\<close> can panic.
\<close>

theorem Insert_Find_return:
  assumes "registry_ok (registry s)"
    and "Parse (TStruct nm fs) = Inr table"
    and "\<forall>v\<in>set vs. schema_of v \<noteq> None"
  shows "(\<exists>r. find_outcome (Find gen ex s (Some (TPtr (TSlice (TStruct nm fs)), VRef d))) =
                Returned r) \<and>
         (\<exists>r. insert_outcome (Insert gen ex s vs) = Returned r)"
proof -
  let ?sql = "fst (select_statement gen (clause s) table)"
  let ?vars = "snd (select_statement gen (clause s) table)"
  have "\<exists>r. find_outcome (Find gen ex s (Some (TPtr (TSlice (TStruct nm fs)), VRef d))) =
              Returned r"
  proof (cases "QueryRows ex ?sql ?vars")
    case (Inl err)
    then show ?thesis by (simp add: Find_unfold[OF assms(1,2)])
  next
    case (Inr rows)
    from Find_rows_cases[OF Parse_names(3)[OF assms(2)], of "pending rows" nm d]
    show ?thesis
    proof
      assume "(\<forall>r\<in>set (pending rows). scans (FieldNames table) r) \<and>
        Find_rows (TStruct nm fs) (FieldNames table)
          (Value (TSlice (TStruct nm fs)) d True False) (pending rows) =
        (Exhausted, Value (TSlice (TStruct nm fs))
           (appended d (map (materialize (TStruct nm fs) (FieldNames table)) (pending rows)))
           True False)"
      then show ?thesis using Find_exhausted[OF assms(1,2) Inr, of d] by simp
    next
      assume "\<exists>pre bad post. pending rows = pre @ bad # post \<and>
        (\<forall>r\<in>set pre. scans (FieldNames table) r) \<and> \<not> scans (FieldNames table) bad \<and>
        Find_rows (TStruct nm fs) (FieldNames table)
          (Value (TSlice (TStruct nm fs)) d True False) (pending rows) =
        (ScanFailed (scan_error bad), Value (TSlice (TStruct nm fs))
           (appended d (map (materialize (TStruct nm fs) (FieldNames table)) pre)) True False)"
      then obtain pre bad post where
        "pending rows = pre @ bad # post" "\<forall>r\<in>set pre. scans (FieldNames table) r"
        "\<not> scans (FieldNames table) bad"
        by blast
      from Find_aborted[OF assms(1,2) Inr this, of d] show ?thesis by simp
    qed
  qed
  moreover have "\<exists>r. insert_outcome (Insert gen ex s vs) = Returned r"
    using Insert_returns[OF assms(3,1)] .
  ultimately show ?thesis ..
qed

theorem Insert_Find_return_witness:
  "(\<exists>r. find_outcome
          (Find render (executor_with [user_row ''Tom'' 18, bad_row] None) fresh
             (Some (TPtr (TSlice User), VRef VNil))) = Returned r) \<and>
   (\<exists>r. insert_outcome
          (Insert render (executor_with [user_row ''Tom'' 18, bad_row] None) fresh
             [Some (User, user ''Tom'' 18), Some (TPtr Pet, VRef (VStruct [(''Kind'', VStr ''cat'')]))]) =
          Returned r)"
proof -
  have vs: "\<forall>v\<in>set [Some (User, user ''Tom'' 18),
      Some (TPtr Pet, VRef (VStruct [(''Kind'', VStr ''cat'')]))]. schema_of v \<noteq> None"
    by (simp add: schema_of_def User_def Pet_def mappable_def exported_def)
  have "(\<exists>r. find_outcome
          (Find render (executor_with [user_row ''Tom'' 18, bad_row] None) fresh
             (Some (TPtr (TSlice (TStruct ''User'' [(''Name'', TString), (''Age'', TInt)])),
                VRef VNil))) = Returned r) \<and>
    (\<exists>r. insert_outcome
          (Insert render (executor_with [user_row ''Tom'' 18, bad_row] None) fresh
             [Some (User, user ''Tom'' 18),
              Some (TPtr Pet, VRef (VStruct [(''Kind'', VStr ''cat'')]))]) = Returned r)"
    by (rule Insert_Find_return[OF fresh_ok Parse_User_fields vs])
  then show ?thesis by (simp only: User_def)
qed

section \<open>Insert: one statement for the batch\<close>

text \<open>
  Claim C3. A batch \<open>Insert\<close> of \<open>N\<close> values of one struct type with \<open>K\<close> mappable fields
  makes one call on the executor, an \<open>Exec\<close>, for the whole batch. Its parameter list is
  the values' records one after the other in input order, each record in field order:
  it has length \<open>N \<times> K\<close> and its entry \<open>i \<times> K + j\<close> is field \<open>j\<close> of value \<open>i\<close>. The
  rendering of the clauses is a parameter; as the specification has it, the INSERT
  clause carries identifiers and no parameters and the VALUES clause carries the
  flattened records.
\<close>

theorem Insert_issues_one_statement:
  assumes "registry_ok (registry s)"
    and "Parse (TStruct nm fs) = Inr table"
    and "ds \<noteq> []"
    and "\<forall>args. snd (gen INSERT args) = []"
    and "\<forall>args. snd (gen VALUES args) = concat (map elems args)"
  shows "\<exists>sql vars.
           insert_calls (Insert gen ex s (map (\<lambda>d. Some (TStruct nm fs, d)) ds)) =
             [ExecCall sql vars] \<and>
           vars = concat (map (\<lambda>d. map (field_data d) (FieldNames table)) ds) \<and>
           length vars = length ds * length (filter mappable fs) \<and>
           (\<forall>i<length ds. \<forall>j<length (filter mappable fs).
              vars ! (i * length (filter mappable fs) + j) =
              field_data (ds ! i) (FieldNames table ! j))"
proof -
  let ?vs = "map (\<lambda>d. Some (TStruct nm fs, d)) ds"
  let ?tables = "replicate (length ds) table"
  let ?rec = "\<lambda>d. map (field_data d) (FieldNames table)"
  let ?K = "length (filter mappable fs)"
  have ne: "?tables \<noteq> []" using assms(3) by simp
  have K: "\<forall>d\<in>set ds. length (?rec d) = ?K"
    by (simp add: Parse_names(1)[OF assms(2)])
  have vars: "snd (gen INSERT (insert_args (last ?tables))) @
              snd (gen VALUES (records ?vs ?tables)) = concat (map ?rec ds)"
    using assms(4,5) by (simp add: records_same_type comp_def)
  have calls: "insert_calls (Insert gen ex s ?vs) =
      [ExecCall (fst (gen INSERT (insert_args (last ?tables))) @
                 fst (gen VALUES (records ?vs ?tables)))
                (concat (map ?rec ds))]"
    using Insert_calls[OF same_type_tables[OF assms(2), of ds] assms(1) ne,
        where gen = gen and ex = ex] vars
    by simp
  have len: "length (concat (map ?rec ds)) = length ds * ?K"
    using length_concat_uniform[OF K] .
  have pos: "\<forall>i<length ds. \<forall>j<?K.
      concat (map ?rec ds) ! (i * ?K + j) = field_data (ds ! i) (FieldNames table ! j)"
  proof (intro allI impI)
    fix i j
    assume i: "i < length ds" and j: "j < ?K"
    from concat_nth_uniform[OF K i j] j
    show "concat (map ?rec ds) ! (i * ?K + j) = field_data (ds ! i) (FieldNames table ! j)"
      by (simp add: Parse_names(1)[OF assms(2)])
  qed
  from calls len pos show ?thesis by blast
qed

theorem Insert_issues_one_statement_witness:
  "\<exists>sql vars.
     insert_calls (Insert render (executor_with [] None) fresh
       (map (\<lambda>d. Some (User, d)) [user ''Tom'' 18, user ''Jo'' 3])) = [ExecCall sql vars] \<and>
     vars = [VStr ''Tom'', VInt 18, VStr ''Jo'', VInt 3] \<and>
     length vars = 2 * 2"
proof -
  have ne: "[user ''Tom'' 18, user ''Jo'' 3] \<noteq> []" by simp
  have ins: "\<forall>args. snd (render INSERT args) = []" by (simp add: render_def)
  have vals: "\<forall>args. snd (render VALUES args) = concat (map elems args)"
    by (simp add: render_def)
  from Insert_issues_one_statement[OF fresh_ok Parse_User_fields ne ins vals,
      where ex = "executor_with [] None"]
  obtain sql vars where
    "insert_calls (Insert render (executor_with [] None) fresh
       (map (\<lambda>d. Some (TStruct ''User'' [(''Name'', TString), (''Age'', TInt)], d))
          [user ''Tom'' 18, user ''Jo'' 3])) = [ExecCall sql vars]"
    "vars = concat (map (\<lambda>d. map (field_data d) (FieldNames User_table))
       [user ''Tom'' 18, user ''Jo'' 3])"
    by blast
  then show ?thesis by (simp add: User_def User_table_def user_def)
qed

section \<open>Clause Set and Statement Builder\<close>

text \<open>
  Claim C6. For every clause set and every list of kinds, \<open>Build\<close> returns the stored
  texts of the listed kinds joined in the order of the list, and their parameters joined
  in the same order; a kind that was never set contributes no text and no parameters,
  so leaving the unset kinds out of the list changes nothing, and \<open>Build\<close> has no
  failing case. Building a list in two pieces and joining the results is the same as
  building the whole list, and a kind just set contributes what \<open>Set\<close> stored for it.
\<close>

theorem Build_in_argument_order:
  "Build cs kinds =
     (concat (map (stored_sql cs) kinds), concat (map (stored_vars cs) kinds)) \<and>
   Build cs (filter (\<lambda>k. k \<in> dom cs) kinds) = Build cs kinds \<and>
   Build cs (ks1 @ ks2) =
     (fst (Build cs ks1) @ fst (Build cs ks2), snd (Build cs ks1) @ snd (Build cs ks2)) \<and>
   stored_sql (cs(k := None)) k = [] \<and> stored_vars (cs(k := None)) k = [] \<and>
   Build (Set gen cs k args) [k] = gen k args"
proof -
  have drop: "concat (map (stored_sql cs) (filter (\<lambda>k. k \<in> dom cs) kinds)) =
              concat (map (stored_sql cs) kinds) \<and>
              concat (map (stored_vars cs) (filter (\<lambda>k. k \<in> dom cs) kinds)) =
              concat (map (stored_vars cs) kinds)"
    by (induction kinds)
       (auto simp: stored_sql_def stored_vars_def domIff split: option.splits)
  have one: "Build (Set gen cs k args) [k] = gen k args"
    by (cases "gen k args") (simp add: Build_eq Set_def stored_sql_def stored_vars_def)
  show ?thesis
    using drop one by (simp add: Build_eq stored_sql_def stored_vars_def)
qed

text \<open>
  Claim C7. Setting a kind twice keeps the second fragment only: the clause set after
  \<open>Set(k, a)\<close> and \<open>Set(k, b)\<close> is the clause set after \<open>Set(k, b)\<close> alone. So in
  \<open>Insert\<close>, which sets INSERT once per value, the text of the statement sent to the
  executor starts with the INSERT fragment rendered from the table name and the column
  list of the last value, followed by the VALUES fragment of all the records.
\<close>

theorem Set_last_write_wins:
  assumes "list_all2 (\<lambda>v table. schema_of v = Some table) vs tables"
    and "registry_ok (registry s)"
    and "tables \<noteq> []"
  shows "Set gen (Set gen cs k a) k b = Set gen cs k b \<and>
         (\<exists>vars. insert_calls (Insert gen ex s vs) =
            [ExecCall (fst (gen INSERT [VStr (Name (last tables)),
                                        VList (map VStr (FieldNames (last tables)))]) @
                       fst (gen VALUES (records vs tables))) vars])"
  using Insert_calls[OF assms, where gen = gen and ex = ex]
  by (simp add: Set_def insert_args_def)

theorem Set_last_write_wins_witness:
  "\<exists>vars. insert_calls (Insert render (executor_with [] None) fresh
       [Some (User, user ''Tom'' 18), Some (Pet, VStruct [(''Kind'', VStr ''cat'')])]) =
     [ExecCall ''INSERT INTO Pet VALUES'' vars]"
proof -
  have tables: "list_all2 (\<lambda>v table. schema_of v = Some table)
      [Some (User, user ''Tom'' 18), Some (Pet, VStruct [(''Kind'', VStr ''cat'')])]
      [User_table, Pet_table]"
    using Parse_User Parse_Pet by (simp add: schema_of_def User_def Pet_def)
  have ne: "[User_table, Pet_table] \<noteq> []" by simp
  from Set_last_write_wins[OF tables fresh_ok ne,
      where gen = render and ex = "executor_with [] None"]
  show ?thesis by (simp add: render_def Pet_table_def)
qed

section \<open>Table Schema Registry\<close>

text \<open>
  Claim C9. For a struct type with \<open>K\<close> mappable fields, \<open>K\<close> at least one, \<open>Model\<close>
  returns a schema whose \<open>Fields\<close> are the type's mappable fields in declaration order,
  \<open>K\<close> of them; a second call for the same type, on any value of it, returns the same
  schema and leaves the cache as the first call left it.
\<close>

theorem Model_cached_schema:
  assumes "registry_ok reg"
    and "filter mappable fs \<noteq> []"
  shows "\<exists>reg' table.
           Model reg (Some (TStruct nm fs, d)) = Inr (reg', table) \<and>
           map FName (Fields table) = filter exported (map fst fs) \<and>
           length (Fields table) = length (filter mappable fs) \<and>
           Model reg' (Some (TStruct nm fs, d')) = Inr (reg', table)"
proof -
  let ?table = "\<lparr>Name = nm,
      Fields = map (\<lambda>f. \<lparr>FName = fst f, ColumnName = fst f\<rparr>) (filter mappable fs),
      FieldNames = map fst (filter mappable fs)\<rparr>"
  have parse: "Parse (TStruct nm fs) = Inr ?table"
    using assms(2) by (simp add: Let_def)
  have names: "map FName (Fields ?table) = filter exported (map fst fs)"
    by (induction fs) (simp_all add: mappable_def)
  have len: "length (Fields ?table) = length (filter mappable fs)" by simp
  show ?thesis
  proof (cases "map_of reg (TStruct nm fs)")
    case None
    then have first: "Model reg (Some (TStruct nm fs, d)) =
        Inr ((TStruct nm fs, ?table) # reg, ?table)"
      using parse by (simp add: Model_def del: Parse.simps)
    have "Model ((TStruct nm fs, ?table) # reg) (Some (TStruct nm fs, d')) =
        Inr ((TStruct nm fs, ?table) # reg, ?table)"
      by (simp add: Model_def del: Parse.simps)
    with first names len show ?thesis by blast
  next
    case (Some cached)
    then have "(TStruct nm fs, cached) \<in> set reg" by (rule map_of_SomeD)
    with assms(1) parse have "cached = ?table"
      by (auto simp: registry_ok_def list_all_iff simp del: Parse.simps)
    with Some have "Model reg (Some (TStruct nm fs, d)) = Inr (reg, ?table)"
      "Model reg (Some (TStruct nm fs, d')) = Inr (reg, ?table)"
      by (simp_all add: Model_def del: Parse.simps)
    with names len show ?thesis by blast
  qed
qed

theorem Model_cached_schema_witness:
  "\<exists>reg' table.
     Model [] (Some (TStruct ''Account'' [(''Id'', TInt), (''secret'', TString), (''Owner'', TString)],
                VStruct [(''Id'', VInt 7), (''secret'', VStr ''x''), (''Owner'', VStr ''Ann'')])) =
       Inr (reg', table) \<and>
     map FName (Fields table) = [''Id'', ''Owner''] \<and>
     Model reg' (Some (TStruct ''Account'' [(''Id'', TInt), (''secret'', TString), (''Owner'', TString)],
                VStruct [(''Id'', VInt 0), (''secret'', VStr []), (''Owner'', VStr [])])) =
       Inr (reg', table)"
proof -
  have ok: "registry_ok []" by (simp add: registry_ok_def)
  have some: "filter mappable [(''Id'', TInt), (''secret'', TString), (''Owner'', TString)] \<noteq> []"
    by (simp add: mappable_def exported_def)
  from Model_cached_schema[OF ok some, where nm = "''Account''"
      and d = "VStruct [(''Id'', VInt 7), (''secret'', VStr ''x''), (''Owner'', VStr ''Ann'')]"
      and d' = "VStruct [(''Id'', VInt 0), (''secret'', VStr []), (''Owner'', VStr [])]"]
  obtain reg' table where
    "Model [] (Some (TStruct ''Account''
         [(''Id'', TInt), (''secret'', TString), (''Owner'', TString)],
       VStruct [(''Id'', VInt 7), (''secret'', VStr ''x''), (''Owner'', VStr ''Ann'')])) =
       Inr (reg', table)"
    "map FName (Fields table) =
       filter exported (map fst [(''Id'', TInt), (''secret'', TString), (''Owner'', TString)])"
    "Model reg' (Some (TStruct ''Account''
         [(''Id'', TInt), (''secret'', TString), (''Owner'', TString)],
       VStruct [(''Id'', VInt 0), (''secret'', VStr []), (''Owner'', VStr [])])) =
       Inr (reg', table)"
    by blast
  then have "Model [] (Some (TStruct ''Account''
         [(''Id'', TInt), (''secret'', TString), (''Owner'', TString)],
       VStruct [(''Id'', VInt 7), (''secret'', VStr ''x''), (''Owner'', VStr ''Ann'')])) =
       Inr (reg', table) \<and>
     map FName (Fields table) = [''Id'', ''Owner''] \<and>
     Model reg' (Some (TStruct ''Account''
         [(''Id'', TInt), (''secret'', TString), (''Owner'', TString)],
       VStruct [(''Id'', VInt 0), (''secret'', VStr []), (''Owner'', VStr [])])) =
       Inr (reg', table)"
    by (simp add: exported_def)
  then show ?thesis by - (rule exI, rule exI, assumption)
qed

end
